theory Spec2Isabelle
  imports Complex_Main "HOL-Library.Word"
begin

unbundle bit_operations_syntax

section \<open>Scanner (src/scanner.c)\<close>

subsection \<open>Source buffer and characters\<close>

text \<open>
  The scanner reads a null-terminated buffer through two pointers. The model keeps the
  bytes in front of the terminator as a \<open>string\<close> and the pointers as offsets into it.
  A read at the offset \<open>length src\<close> yields the terminating null byte. The scanner
  steps over no null byte, so \<open>current\<close> stays at an offset of the buffer, the
  terminator included (lemma \<open>scanToken_in_buffer\<close>). A read behind the terminator,
  which the scanner does not make, would yield the null byte in the model.
\<close>

definition charAt :: "string \<Rightarrow> nat \<Rightarrow> char" where
  "charAt src i = (if i < length src then src ! i else CHR 0x00)"

text \<open>
  The comparisons of \<open>isAlpha\<close> and \<open>isDigit\<close> are between character codes. All bounds
  are below 128, so the result is the same whether the C type \<open>char\<close> is signed or not:
  a byte above 127 is outside every range either way.
\<close>

definition charCode :: "char \<Rightarrow> nat" where
  "charCode c = of_char c"

definition isAlpha :: "char \<Rightarrow> bool" where
  "isAlpha c \<longleftrightarrow>
     (charCode c \<ge> charCode (CHR ''a'') \<and> charCode c \<le> charCode (CHR ''z'')) \<or>
     (charCode c \<ge> charCode (CHR ''A'') \<and> charCode c \<le> charCode (CHR ''Z'')) \<or>
     c = CHR ''_''"

definition isDigit :: "char \<Rightarrow> bool" where
  "isDigit c \<longleftrightarrow> charCode c \<ge> charCode (CHR ''0'') \<and> charCode c \<le> charCode (CHR ''9'')"

subsection \<open>Tokens and scanner state\<close>

text \<open>
  Modelled from the spec: the enumeration \<open>TokenType\<close> is declared in include/scanner.h,
  which is not among the sources. Its members are the token kinds that scanner.c
  returns, under the names scanner.c uses.
\<close>

datatype TokenType =
    TOKEN_LEFT_PAREN | TOKEN_RIGHT_PAREN | TOKEN_LEFT_BRACE | TOKEN_RIGHT_BRACE
  | TOKEN_COMMA | TOKEN_DOT | TOKEN_MINUS | TOKEN_PLUS | TOKEN_SEMICOLON
  | TOKEN_SLASH | TOKEN_ASTERISK
  | TOKEN_BANG | TOKEN_BANG_EQUAL | TOKEN_EQUAL | TOKEN_EQUAL_EQUAL
  | TOKEN_GREATER | TOKEN_GREATER_EQUAL | TOKEN_LESS | TOKEN_LESS_EQUAL
  | TOKEN_IDENTIFIER | TOKEN_STRING | TOKEN_NUMBER
  | TOKEN_AND | TOKEN_CLASS | TOKEN_ELSE | TOKEN_FALSE | TOKEN_FOR | TOKEN_FUN
  | TOKEN_IF | TOKEN_NIL | TOKEN_OR | TOKEN_PRINT | TOKEN_RETURN | TOKEN_SUPER
  | TOKEN_THIS | TOKEN_TRUE | TOKEN_VAR | TOKEN_WHILE
  | TOKEN_ERROR | TOKEN_EOF

text \<open>
  The field \<open>start\<close> of a token points either into the source buffer (\<open>makeToken\<close>) or
  at a string literal of the scanner (\<open>errorToken\<close>).
\<close>

datatype text_ref = InSource nat | Static string

record Token =
  type_tok :: TokenType
  start_tok :: text_ref
  length_tok :: int
  line_tok :: int

text \<open>
  The scanner state. The counter \<open>line\<close> is an \<open>int\<close> of C; the model counts without a
  bound, so it says nothing of a source text with more than \<open>INT_MAX\<close> newlines.
\<close>

record Scanner =
  start :: nat
  current :: nat
  line :: int

definition initScanner :: "Scanner" where
  "initScanner = \<lparr>start = 0, current = 0, line = 1\<rparr>"

subsection \<open>Cursor primitives\<close>

definition isAtEnd :: "string \<Rightarrow> Scanner \<Rightarrow> bool" where
  "isAtEnd src s \<longleftrightarrow> charAt src (current s) = CHR 0x00"

text \<open>\<open>advance\<close> returns the character it steps over, and the scanner moved by one.\<close>

definition advance :: "string \<Rightarrow> Scanner \<Rightarrow> char \<times> Scanner" where
  "advance src s = (charAt src (current s), s\<lparr>current := current s + 1\<rparr>)"

definition peek :: "string \<Rightarrow> Scanner \<Rightarrow> char" where
  "peek src s = charAt src (current s)"

definition peekNext :: "string \<Rightarrow> Scanner \<Rightarrow> char" where
  "peekNext src s = (if isAtEnd src s then CHR 0x00 else charAt src (current s + 1))"

definition match :: "string \<Rightarrow> char \<Rightarrow> Scanner \<Rightarrow> bool \<times> Scanner" where
  "match src expected s =
     (if isAtEnd src s then (False, s)
      else if charAt src (current s) \<noteq> expected then (False, s)
      else (True, s\<lparr>current := current s + 1\<rparr>))"

definition makeToken :: "Scanner \<Rightarrow> TokenType \<Rightarrow> Token" where
  "makeToken s ty =
     \<lparr>type_tok = ty, start_tok = InSource (start s),
      length_tok = int (current s) - int (start s), line_tok = line s\<rparr>"

definition errorToken :: "Scanner \<Rightarrow> string \<Rightarrow> Token" where
  "errorToken s message =
     \<lparr>type_tok = TOKEN_ERROR, start_tok = Static message,
      length_tok = int (length message), line_tok = line s\<rparr>"

subsection \<open>Whitespace and comments\<close>

text \<open>The loop of the line comment: \<open>while (peek() != '\n' && !isAtEnd()) advance();\<close>\<close>

function lineComment :: "string \<Rightarrow> Scanner \<Rightarrow> Scanner" where
  "lineComment src s =
     (if peek src s \<noteq> CHR 0x0A \<and> \<not> isAtEnd src s
      then lineComment src (snd (advance src s)) else s)"
  by pat_completeness auto
termination
  by (relation "measure (\<lambda>(src, s). length src - current s)")
     (auto simp: isAtEnd_def advance_def charAt_def split: if_splits)

declare lineComment.simps [simp del]

text \<open>
  The loop of the block comment, \<open>while (!isAtEnd()) { ... }\<close>: it counts a newline,
  leaves after the closing \<open>*/\<close>, and otherwise steps over one character.
\<close>

function blockComment :: "string \<Rightarrow> Scanner \<Rightarrow> Scanner" where
  "blockComment src s =
     (if \<not> isAtEnd src s then
        (let s1 = (if peek src s = CHR 0x0A then s\<lparr>line := line s + 1\<rparr> else s) in
         if peek src s1 = CHR ''*'' \<and> peekNext src s1 = CHR ''/''
         then snd (advance src (snd (advance src s1)))
         else blockComment src (snd (advance src s1)))
      else s)"
  by pat_completeness auto
termination
  by (relation "measure (\<lambda>(src, s). length src - current s)")
     (auto simp: isAtEnd_def advance_def charAt_def split: if_splits)

declare blockComment.simps [simp del]

text \<open>
  \<open>skipWhitespace\<close> is the loop \<open>for (;;) { char c = peek(); switch (c) ... }\<close>. The test
  of the block comment branch is written as in the source, \<open>peek() == '*'\<close>, in a branch
  where \<open>peek()\<close> is \<open>'/'\<close>. The token that \<open>errorToken\<close> builds for an unterminated
  comment is not used by the source (the function is \<open>void\<close>): the model builds it and
  drops it too.
\<close>

lemma lineComment_current: "current s \<le> current (lineComment src s)"
proof (induction src s rule: lineComment.induct)
  case (1 src s)
  show ?case
  proof (cases "peek src s \<noteq> CHR 0x0A \<and> \<not> isAtEnd src s")
    case True
    then have "lineComment src s = lineComment src (snd (advance src s))"
      by (subst lineComment.simps) simp
    moreover from True "1"
    have "current (snd (advance src s)) \<le> current (lineComment src (snd (advance src s)))"
      by simp
    ultimately show ?thesis by (simp add: advance_def)
  next
    case False
    then have "lineComment src s = s"
      by (subst lineComment.simps) auto
    then show ?thesis by simp
  qed
qed

lemma lineComment_slash:
  assumes "peek src s = CHR ''/''"
  shows "current s < current (lineComment src s)"
proof -
  have ne: "peek src s \<noteq> CHR 0x0A \<and> \<not> isAtEnd src s"
    using assms by (simp add: peek_def isAtEnd_def)
  have "current (snd (advance src s)) \<le> current (lineComment src (snd (advance src s)))"
    by (rule lineComment_current)
  moreover have "lineComment src s = lineComment src (snd (advance src s))"
    using ne by (subst lineComment.simps) simp
  ultimately show ?thesis by (simp add: advance_def)
qed

function skipWhitespace :: "string \<Rightarrow> Scanner \<Rightarrow> Scanner" where
  "skipWhitespace src s =
     (let c = peek src s in
      if c = CHR '' '' \<or> c = CHR 0x0D \<or> c = CHR 0x09 then
        skipWhitespace src (snd (advance src s))
      else if c = CHR 0x0A then
        skipWhitespace src (snd (advance src (s\<lparr>line := line s + 1\<rparr>)))
      else if c = CHR ''/'' then
        (if peekNext src s = CHR ''/'' then
           skipWhitespace src (lineComment src s)
         else if peek src s = CHR ''*'' then
           (let s1 = snd (advance src (snd (advance src s)));
                s2 = blockComment src s1;
                s3 = (if isAtEnd src s2
                      then (let unused = errorToken s2 ''Unterminated multiline comment error.''
                            in s2)
                      else s2)
            in skipWhitespace src s3)
         else s)
      else s)"
  by pat_completeness auto
termination
proof (relation "measure (\<lambda>(src, s). length src - current s)")
  show "wf (measure (\<lambda>(src, s). length src - current s))" by simp
next
  fix src s c
  assume "c = peek src s" "c = CHR '' '' \<or> c = CHR 0x0D \<or> c = CHR 0x09"
  then show "((src, snd (advance src s)), (src, s)) \<in> measure (\<lambda>(src, s). length src - current s)"
    by (auto simp: peek_def advance_def charAt_def split: if_splits)
next
  fix src s c
  assume "c = peek src s" "c = CHR 0x0A"
  then show "((src, snd (advance src (s\<lparr>line := line s + 1\<rparr>))), (src, s))
      \<in> measure (\<lambda>(src, s). length src - current s)"
    by (auto simp: peek_def advance_def charAt_def split: if_splits)
next
  fix src s c
  assume c: "c = peek src s" "c = CHR ''/''"
  then have "current s < length src"
    by (auto simp: peek_def charAt_def split: if_splits)
  moreover have "current s < current (lineComment src s)"
    using c by (simp add: lineComment_slash)
  ultimately show "((src, lineComment src s), (src, s))
      \<in> measure (\<lambda>(src, s). length src - current s)"
    by simp
next
  fix src s c x xa xb
  assume "c = peek src s" "c = CHR ''/''" "peek src s = CHR ''*''"
  then show "((src, xb), (src, s)) \<in> measure (\<lambda>(src, s). length src - current s)"
    by simp
qed

declare skipWhitespace.simps [simp del]

subsection \<open>Keywords and identifiers\<close>

text \<open>
  \<open>memcmp(p, rest, n) == 0\<close>: the \<open>n\<close> bytes of the buffer from offset \<open>off\<close> are the
  first \<open>n\<close> bytes of \<open>rest\<close>.
\<close>

definition memcmp_eq :: "string \<Rightarrow> nat \<Rightarrow> string \<Rightarrow> nat \<Rightarrow> bool" where
  "memcmp_eq src off rest n \<longleftrightarrow> map (\<lambda>i. charAt src (off + i)) [0..<n] = take n rest"

definition checkKeyword :: "string \<Rightarrow> Scanner \<Rightarrow> nat \<Rightarrow> nat \<Rightarrow> string \<Rightarrow> TokenType \<Rightarrow> TokenType" where
  "checkKeyword src s st len rest ty =
     (if int (current s) - int (start s) = int (st + len) \<and>
         memcmp_eq src (start s + st) rest len
      then ty else TOKEN_IDENTIFIER)"

definition identifierType :: "string \<Rightarrow> Scanner \<Rightarrow> TokenType" where
  "identifierType src s =
     (let c0 = charAt src (start s) in
      if c0 = CHR ''a'' then checkKeyword src s 1 2 ''nd'' TOKEN_AND
      else if c0 = CHR ''c'' then checkKeyword src s 1 4 ''lass'' TOKEN_CLASS
      else if c0 = CHR ''e'' then checkKeyword src s 1 3 ''lse'' TOKEN_ELSE
      else if c0 = CHR ''f'' then
        (if int (current s) - int (start s) > 1 then
           (let c1 = charAt src (start s + 1) in
            if c1 = CHR ''a'' then checkKeyword src s 2 3 ''lse'' TOKEN_FALSE
            else if c1 = CHR ''o'' then checkKeyword src s 2 1 ''r'' TOKEN_FOR
            else if c1 = CHR ''n'' then checkKeyword src s 2 0 [] TOKEN_FUN
            else TOKEN_IDENTIFIER)
         else TOKEN_IDENTIFIER)
      else if c0 = CHR ''i'' then checkKeyword src s 1 1 ''f'' TOKEN_IF
      else if c0 = CHR ''n'' then checkKeyword src s 1 3 ''ull'' TOKEN_NIL
      else if c0 = CHR ''o'' then checkKeyword src s 1 1 ''r'' TOKEN_OR
      else if c0 = CHR ''p'' then checkKeyword src s 1 6 ''rintln'' TOKEN_PRINT
      else if c0 = CHR ''r'' then checkKeyword src s 1 5 ''eturn'' TOKEN_RETURN
      else if c0 = CHR ''s'' then checkKeyword src s 1 4 ''uper'' TOKEN_SUPER
      else if c0 = CHR ''t'' then
        (if int (current s) - int (start s) > 1 then
           (let c1 = charAt src (start s + 1) in
            if c1 = CHR ''h'' then checkKeyword src s 2 2 ''is'' TOKEN_THIS
            else if c1 = CHR ''r'' then checkKeyword src s 2 2 ''ue'' TOKEN_TRUE
            else TOKEN_IDENTIFIER)
         else TOKEN_IDENTIFIER)
      else if c0 = CHR ''v'' then checkKeyword src s 1 2 ''ar'' TOKEN_VAR
      else if c0 = CHR ''w'' then checkKeyword src s 1 4 ''hile'' TOKEN_WHILE
      else TOKEN_IDENTIFIER)"

lemma charCode_NUL [simp]: "charCode (CHR 0x00) = 0"
  by (simp add: charCode_def)

lemma not_isAlpha_NUL [simp]: "\<not> isAlpha (CHR 0x00)"
  by (simp add: isAlpha_def charCode_def)

lemma not_isDigit_NUL [simp]: "\<not> isDigit (CHR 0x00)"
  by (simp add: isDigit_def charCode_def)

text \<open>\<open>while (isAlpha(peek()) || isDigit(peek())) advance();\<close>\<close>

function identifierLoop :: "string \<Rightarrow> Scanner \<Rightarrow> Scanner" where
  "identifierLoop src s =
     (if isAlpha (peek src s) \<or> isDigit (peek src s)
      then identifierLoop src (snd (advance src s)) else s)"
  by pat_completeness auto
termination
  by (relation "measure (\<lambda>(src, s). length src - current s)")
     (auto simp: peek_def advance_def charAt_def split: if_splits)

declare identifierLoop.simps [simp del]

definition identifier_tok :: "string \<Rightarrow> Scanner \<Rightarrow> Token \<times> Scanner" where
  "identifier_tok src s =
     (let s1 = identifierLoop src s in (makeToken s1 (identifierType src s1), s1))"

subsection \<open>Numbers and strings\<close>

text \<open>\<open>while (isDigit(peek())) advance();\<close>\<close>

function digitLoop :: "string \<Rightarrow> Scanner \<Rightarrow> Scanner" where
  "digitLoop src s =
     (if isDigit (peek src s) then digitLoop src (snd (advance src s)) else s)"
  by pat_completeness auto
termination
  by (relation "measure (\<lambda>(src, s). length src - current s)")
     (auto simp: peek_def advance_def charAt_def split: if_splits)

declare digitLoop.simps [simp del]

definition number_tok :: "string \<Rightarrow> Scanner \<Rightarrow> Token \<times> Scanner" where
  "number_tok src s =
     (let s1 = digitLoop src s;
          s2 = (if peek src s1 = CHR ''.'' \<and> isDigit (peekNext src s1)
                then digitLoop src (snd (advance src s1)) else s1)
      in (makeToken s2 TOKEN_NUMBER, s2))"

text \<open>
  \<open>while (peek() != '"' && !isAtEnd()) { if (peek() == '\n') scanner.line++; advance(); }\<close>
\<close>

function stringLoop :: "string \<Rightarrow> Scanner \<Rightarrow> Scanner" where
  "stringLoop src s =
     (if peek src s \<noteq> CHR 0x22 \<and> \<not> isAtEnd src s then
        stringLoop src
          (snd (advance src (if peek src s = CHR 0x0A then s\<lparr>line := line s + 1\<rparr> else s)))
      else s)"
  by pat_completeness auto
termination
  by (relation "measure (\<lambda>(src, s). length src - current s)")
     (auto simp: isAtEnd_def advance_def charAt_def split: if_splits)

declare stringLoop.simps [simp del]

definition string_tok :: "string \<Rightarrow> Scanner \<Rightarrow> Token \<times> Scanner" where
  "string_tok src s =
     (let s1 = stringLoop src s in
      if isAtEnd src s1 then (errorToken s1 ''Unterminated string.'', s1)
      else (let s2 = snd (advance src s1) in (makeToken s2 TOKEN_STRING, s2)))"

subsection \<open>scanToken\<close>

text \<open>
  \<open>scanToken\<close> returns the token and the scanner it leaves behind. The two-character
  operators take the result of \<open>match\<close> first and build the token from the moved
  scanner, as the evaluation of the argument of \<open>makeToken\<close> does in the source.
\<close>

definition twoChar :: "string \<Rightarrow> Scanner \<Rightarrow> TokenType \<Rightarrow> TokenType \<Rightarrow> Token \<times> Scanner" where
  "twoChar src s yes no =
     (let (m, s1) = match src (CHR ''='') s in (makeToken s1 (if m then yes else no), s1))"

definition scanToken :: "string \<Rightarrow> Scanner \<Rightarrow> Token \<times> Scanner" where
  "scanToken src s0 =
     (let s1 = skipWhitespace src s0;
          s2 = s1\<lparr>start := current s1\<rparr>
      in if isAtEnd src s2 then (makeToken s2 TOKEN_EOF, s2)
         else
           (let (c, s3) = advance src s2 in
            if isAlpha c then identifier_tok src s3
            else if isDigit c then number_tok src s3
            else if c = CHR ''('' then (makeToken s3 TOKEN_LEFT_PAREN, s3)
            else if c = CHR '')'' then (makeToken s3 TOKEN_RIGHT_PAREN, s3)
            else if c = CHR ''{'' then (makeToken s3 TOKEN_LEFT_BRACE, s3)
            else if c = CHR ''}'' then (makeToken s3 TOKEN_RIGHT_BRACE, s3)
            else if c = CHR '';'' then (makeToken s3 TOKEN_SEMICOLON, s3)
            else if c = CHR '','' then (makeToken s3 TOKEN_COMMA, s3)
            else if c = CHR ''.'' then (makeToken s3 TOKEN_DOT, s3)
            else if c = CHR ''-'' then (makeToken s3 TOKEN_MINUS, s3)
            else if c = CHR ''+'' then (makeToken s3 TOKEN_PLUS, s3)
            else if c = CHR ''/'' then (makeToken s3 TOKEN_SLASH, s3)
            else if c = CHR ''*'' then (makeToken s3 TOKEN_ASTERISK, s3)
            else if c = CHR ''!'' then twoChar src s3 TOKEN_BANG_EQUAL TOKEN_BANG
            else if c = CHR ''='' then twoChar src s3 TOKEN_EQUAL_EQUAL TOKEN_EQUAL
            else if c = CHR ''<'' then twoChar src s3 TOKEN_LESS_EQUAL TOKEN_LESS
            else if c = CHR ''>'' then twoChar src s3 TOKEN_GREATER_EQUAL TOKEN_GREATER
            else if c = CHR 0x22 then string_tok src s3
            else (errorToken s3 ''Unexpected character.'', s3)))"

text \<open>
  Successive calls: the types of the tokens that the next \<open>n\<close> calls of \<open>scanToken\<close>
  return, in order. (The caller of the scanner is not in this repository.)
\<close>

fun scanTypes :: "nat \<Rightarrow> string \<Rightarrow> Scanner \<Rightarrow> TokenType list" where
  "scanTypes 0 src s = []"
| "scanTypes (Suc n) src s =
     (let (tok, s1) = scanToken src s in type_tok tok # scanTypes n src s1)"

section \<open>Virtual machine (src/vm.c)\<close>

subsection \<open>Declarations of the headers\<close>

text \<open>
  Modelled from the spec: the headers include/chunk.h, include/value.h and include/vm.h
  are not among the sources. They declare the opcodes, the chunk, the type \<open>Value\<close>,
  the constant \<open>STACK_MAX\<close>, the structure \<open>VM\<close> and the type \<open>InterpretResult\<close>.
  The opcodes are the eight of the instruction table of the spec, under the names vm.c
  uses; the result type has the success marker that vm.c returns and the two reserved
  failure markers.
\<close>

datatype OpCode =
    OP_CONSTANT | OP_CONSTANT_LONG | OP_ADD | OP_SUBTRACT | OP_MULTIPLY | OP_DIVIDE
  | OP_NEGATE | OP_RETURN

datatype InterpretResult = INTERPRET_OK | INTERPRET_COMPILE_ERROR | INTERPRET_RUNTIME_ERROR

text \<open>
  A chunk: the instruction bytes (\<open>chunk->code\<close>) and the constant table
  (\<open>chunk->constants.values\<close>). The type of values is the type variable \<open>'v\<close>.
\<close>

record 'v Chunk =
  code :: "8 word list"
  constants :: "'v list"

text \<open>
  What vm.c takes from the headers and the C language is a parameter of the model:
  the capacity constant, the numbering of the opcodes (\<open>opcode D b\<close> is the opcode whose
  value is the byte \<open>b\<close>, if any), and the arithmetic of \<open>Value\<close>, a floating-point
  type in C: \<open>a + b\<close>, \<open>a - b\<close>, \<open>a * b\<close>, \<open>a / b\<close> and \<open>-a\<close>.
\<close>

record 'v decls =
  STACK_MAX :: nat
  opcode :: "8 word \<Rightarrow> OpCode option"
  v_add :: "'v \<Rightarrow> 'v \<Rightarrow> 'v"
  v_sub :: "'v \<Rightarrow> 'v \<Rightarrow> 'v"
  v_mul :: "'v \<Rightarrow> 'v \<Rightarrow> 'v"
  v_div :: "'v \<Rightarrow> 'v \<Rightarrow> 'v"
  v_neg :: "'v \<Rightarrow> 'v"

text \<open>
  The VM: \<open>ip\<close> is an offset into the code of the chunk, \<open>stackTop\<close> an offset in slots
  from the base \<open>vm.stack\<close>, and \<open>stack i\<close> the value of the slot at the offset \<open>i\<close>.
  The array \<open>vm.stack\<close> has \<open>STACK_MAX\<close> slots by the spec, at the offsets below
  \<open>STACK_MAX\<close>. The model makes no store at another offset: \<open>push\<close> stops there (lemma
  \<open>push_in_array\<close>), and a run that starts with the top inside the array keeps it there
  and changes no \<open>stack i\<close> with \<open>i\<close> outside the array (lemma \<open>step_in_array\<close>).
\<close>

record 'v VM =
  chunk :: "'v Chunk"
  ip :: nat
  stack :: "nat \<Rightarrow> 'v"
  stackTop :: nat

text \<open>
  The ways in which execution stops: \<open>exit(1)\<close> after a diagnostic on the error stream,
  the return of \<open>run\<close>, and an access outside an array, which C leaves undefined: a
  read outside the code or the constant table of the chunk, or a store outside the
  stack. Each carries the VM at that moment.
\<close>

datatype fatal = StackOverflow | StackUnderflow

datatype 'v stop =
    Exit fatal "'v VM"
  | Returned InterpretResult "'v VM"
  | OutOfBounds "'v VM"

definition andThen :: "'e + 'a \<Rightarrow> ('a \<Rightarrow> 'e + 'b) \<Rightarrow> 'e + 'b" where
  "andThen r f = (case r of Inl e \<Rightarrow> Inl e | Inr x \<Rightarrow> f x)"

subsection \<open>Stack\<close>

definition resetStack :: "'v VM \<Rightarrow> 'v VM" where
  "resetStack vm = vm\<lparr>stackTop := 0\<rparr>"

definition initVM :: "'v VM \<Rightarrow> 'v VM" where
  "initVM vm = resetStack vm"

text \<open>
  \<open>push\<close> exits when the top is above \<open>vm.stack + STACK_MAX\<close>. Otherwise it stores through
  \<open>vm.stackTop\<close>. With the top at \<open>vm.stack + STACK_MAX\<close> the check has not tripped and the
  store is to the slot one behind the last slot of the array: the model stops there.
\<close>

definition push :: "'v decls \<Rightarrow> 'v \<Rightarrow> 'v VM \<Rightarrow> 'v stop + 'v VM" where
  "push D v vm =
     (if stackTop vm > STACK_MAX D then Inl (Exit StackOverflow vm)
      else if stackTop vm < STACK_MAX D then
        Inr (vm\<lparr>stack := (stack vm)(stackTop vm := v), stackTop := stackTop vm + 1\<rparr>)
      else Inl (OutOfBounds vm))"

definition pop :: "'v VM \<Rightarrow> 'v stop + ('v \<times> 'v VM)" where
  "pop vm =
     (if stackTop vm = 0 then Inl (Exit StackUnderflow vm)
      else Inr (stack vm (stackTop vm - 1), vm\<lparr>stackTop := stackTop vm - 1\<rparr>))"

subsection \<open>Reading the chunk\<close>

text \<open>\<open>READ_BYTE()\<close> is \<open>(*vm.ip++)\<close>.\<close>

definition READ_BYTE :: "'v VM \<Rightarrow> 'v stop + (8 word \<times> 'v VM)" where
  "READ_BYTE vm =
     (if ip vm < length (code (chunk vm))
      then Inr (code (chunk vm) ! ip vm, vm\<lparr>ip := ip vm + 1\<rparr>)
      else Inl (OutOfBounds vm))"

definition readLongIndex :: "'v VM \<Rightarrow> 'v stop + (32 word \<times> 'v VM)" where
  "readLongIndex vm =
     andThen (READ_BYTE vm) (\<lambda>(b0, vm1).
     andThen (READ_BYTE vm1) (\<lambda>(b1, vm2).
     andThen (READ_BYTE vm2) (\<lambda>(b2, vm3).
       Inr (((0 OR push_bit 16 (ucast b0)) OR push_bit 8 (ucast b1)) OR ucast b2, vm3))))"

text \<open>\<open>vm.chunk->constants.values[index]\<close>\<close>

definition constantAt :: "'v VM \<Rightarrow> nat \<Rightarrow> 'v stop + 'v" where
  "constantAt vm i =
     (if i < length (constants (chunk vm)) then Inr (constants (chunk vm) ! i)
      else Inl (OutOfBounds vm))"

subsection \<open>The dispatch loop\<close>

definition BINARY_OP :: "'v decls \<Rightarrow> ('v \<Rightarrow> 'v \<Rightarrow> 'v) \<Rightarrow> 'v VM \<Rightarrow> 'v stop + 'v VM" where
  "BINARY_OP D op vm =
     andThen (pop vm) (\<lambda>(b, vm1).
     andThen (pop vm1) (\<lambda>(a, vm2).
       push D (op a b) vm2))"

text \<open>
  One turn of the loop of \<open>run\<close>: \<open>Inr\<close> is the VM with which the loop goes on. The
  \<open>switch\<close> has no \<open>default\<close>. The trace under \<open>DEBUG_TRACE_EXECUTION\<close> and the newline
  that \<open>OP_RETURN\<close> prints are output only and are left out.
\<close>

definition step :: "'v decls \<Rightarrow> 'v VM \<Rightarrow> 'v stop + 'v VM" where
  "step D vm =
     andThen (READ_BYTE vm) (\<lambda>(instruction, vm1).
       case opcode D instruction of
         Some OP_CONSTANT \<Rightarrow>
           andThen (READ_BYTE vm1) (\<lambda>(i, vm2).
           andThen (constantAt vm2 (unat i)) (\<lambda>constant. push D constant vm2))
       | Some OP_CONSTANT_LONG \<Rightarrow>
           andThen (readLongIndex vm1) (\<lambda>(index, vm2).
           andThen (constantAt vm2 (unat index)) (\<lambda>constant. push D constant vm2))
       | Some OP_ADD \<Rightarrow> BINARY_OP D (v_add D) vm1
       | Some OP_SUBTRACT \<Rightarrow> BINARY_OP D (v_sub D) vm1
       | Some OP_MULTIPLY \<Rightarrow> BINARY_OP D (v_mul D) vm1
       | Some OP_DIVIDE \<Rightarrow> BINARY_OP D (v_div D) vm1
       | Some OP_NEGATE \<Rightarrow> andThen (pop vm1) (\<lambda>(x, vm2). push D (v_neg D x) vm2)
       | Some OP_RETURN \<Rightarrow> Inl (Returned INTERPRET_OK vm1)
       | None \<Rightarrow> Inr vm1)"

lemma andThen_Inr:
  "andThen r f = Inr y \<longleftrightarrow> (\<exists>x. r = Inr x \<and> f x = Inr y)"
  by (cases r) (simp_all add: andThen_def)

lemma push_Inr:
  "push D v vm = Inr vm' \<Longrightarrow> ip vm' = ip vm \<and> chunk vm' = chunk vm"
  by (auto simp: push_def split: if_splits)

lemma pop_Inr:
  "pop vm = Inr (x, vm') \<Longrightarrow> ip vm' = ip vm \<and> chunk vm' = chunk vm"
  by (auto simp: pop_def split: if_splits)

lemma READ_BYTE_Inr:
  "READ_BYTE vm = Inr (b, vm') \<Longrightarrow>
     ip vm < length (code (chunk vm)) \<and> ip vm' = ip vm + 1 \<and> chunk vm' = chunk vm"
  by (auto simp: READ_BYTE_def split: if_splits)

lemma readLongIndex_Inr:
  "readLongIndex vm = Inr (i, vm') \<Longrightarrow> ip vm' = ip vm + 3 \<and> chunk vm' = chunk vm"
  by (auto simp: readLongIndex_def andThen_Inr dest!: READ_BYTE_Inr)

lemma BINARY_OP_Inr:
  "BINARY_OP D op vm = Inr vm' \<Longrightarrow> ip vm' = ip vm \<and> chunk vm' = chunk vm"
  by (auto simp: BINARY_OP_def andThen_Inr dest!: pop_Inr push_Inr)

lemma step_Inr:
  assumes "step D vm = Inr vm'"
  shows "ip vm < length (code (chunk vm)) \<and> ip vm < ip vm' \<and> chunk vm' = chunk vm"
proof -
  from assms obtain b vm1 where rd: "READ_BYTE vm = Inr (b, vm1)"
    and rest: "(case opcode D b of
         Some OP_CONSTANT \<Rightarrow>
           andThen (READ_BYTE vm1) (\<lambda>(i, vm2).
           andThen (constantAt vm2 (unat i)) (\<lambda>constant. push D constant vm2))
       | Some OP_CONSTANT_LONG \<Rightarrow>
           andThen (readLongIndex vm1) (\<lambda>(index, vm2).
           andThen (constantAt vm2 (unat index)) (\<lambda>constant. push D constant vm2))
       | Some OP_ADD \<Rightarrow> BINARY_OP D (v_add D) vm1
       | Some OP_SUBTRACT \<Rightarrow> BINARY_OP D (v_sub D) vm1
       | Some OP_MULTIPLY \<Rightarrow> BINARY_OP D (v_mul D) vm1
       | Some OP_DIVIDE \<Rightarrow> BINARY_OP D (v_div D) vm1
       | Some OP_NEGATE \<Rightarrow> andThen (pop vm1) (\<lambda>(x, vm2). push D (v_neg D x) vm2)
       | Some OP_RETURN \<Rightarrow> Inl (Returned INTERPRET_OK vm1)
       | None \<Rightarrow> Inr vm1) = Inr vm'"
    by (auto simp: step_def andThen_Inr)
  from rd have a: "ip vm < length (code (chunk vm))" "ip vm1 = ip vm + 1" "chunk vm1 = chunk vm"
    by (auto dest: READ_BYTE_Inr)
  have "ip vm1 \<le> ip vm' \<and> chunk vm' = chunk vm1"
    using rest
    by (auto simp: andThen_Inr split: option.splits OpCode.splits
             dest!: READ_BYTE_Inr readLongIndex_Inr BINARY_OP_Inr pop_Inr push_Inr)
  with a show ?thesis by simp
qed

text \<open>
  \<open>run\<close> is the loop \<open>for (;;)\<close>. Every turn moves \<open>ip\<close> forward and a read behind the
  last byte of the code stops the model, so the loop of the model ends on every chunk.
\<close>

function run :: "'v decls \<Rightarrow> 'v VM \<Rightarrow> 'v stop" where
  "run D vm = (case step D vm of Inl st \<Rightarrow> st | Inr vm' \<Rightarrow> run D vm')"
  by pat_completeness auto
termination
proof (relation "measure (\<lambda>(D, vm). length (code (chunk vm)) - ip vm)")
  show "wf (measure (\<lambda>(D, vm). length (code (chunk vm)) - ip vm))" by simp
next
  fix D :: "'v decls" and vm vm' :: "'v VM"
  assume "step D vm = Inr vm'"
  from step_Inr [OF this]
  show "((D, vm'), (D, vm)) \<in> measure (\<lambda>(D, vm). length (code (chunk vm)) - ip vm)"
    by auto
qed

declare run.simps [simp del]

definition interpret_chunk :: "'v decls \<Rightarrow> 'v Chunk \<Rightarrow> 'v VM \<Rightarrow> 'v stop" where
  "interpret_chunk D c vm = run D (vm\<lparr>chunk := c, ip := 0\<rparr>)"

section \<open>Tables and samples for the statements\<close>

subsection \<open>The keyword table of the code\<close>

text \<open>
  The spellings that \<open>identifierType\<close> accepts, with their token types, written as a
  table to compare the code with. It is the keyword set of the spec with \<open>fn\<close> in the
  place of \<open>fun\<close>. \<open>keywordType\<close> looks a lexeme up in the table; a lexeme that is not
  in the table is an identifier.
\<close>

definition keywordTable :: "(string \<times> TokenType) list" where
  "keywordTable =
     [(''and'', TOKEN_AND), (''class'', TOKEN_CLASS), (''else'', TOKEN_ELSE),
      (''false'', TOKEN_FALSE), (''for'', TOKEN_FOR), (''fn'', TOKEN_FUN),
      (''if'', TOKEN_IF), (''null'', TOKEN_NIL), (''or'', TOKEN_OR),
      (''println'', TOKEN_PRINT), (''return'', TOKEN_RETURN), (''super'', TOKEN_SUPER),
      (''this'', TOKEN_THIS), (''true'', TOKEN_TRUE), (''var'', TOKEN_VAR),
      (''while'', TOKEN_WHILE)]"

definition keywordType :: "string \<Rightarrow> TokenType" where
  "keywordType w = (case map_of keywordTable w of Some t \<Rightarrow> t | None \<Rightarrow> TOKEN_IDENTIFIER)"

text \<open>The characters that the loop of \<open>identifier\<close> steps over.\<close>

definition isAlnum :: "char \<Rightarrow> bool" where
  "isAlnum c \<longleftrightarrow> isAlpha c \<or> isDigit c"

subsection \<open>Sample parameters and sequences of calls\<close>

text \<open>
  The concrete instances below use one sample of the parameters: the capacity 256 of
  the spec, the opcodes numbered from 0 in the order of the instruction table of the
  spec, and the arithmetic of the real numbers. \<open>sampleVM cs ks vs\<close> is a VM at the start
  of the chunk with code \<open>cs\<close> and constants \<open>ks\<close>, with the values \<open>vs\<close> on its stack.
\<close>

definition sampleOpcode :: "8 word \<Rightarrow> OpCode option" where
  "sampleOpcode b =
     (if b = 0 then Some OP_CONSTANT else if b = 1 then Some OP_CONSTANT_LONG
      else if b = 2 then Some OP_ADD else if b = 3 then Some OP_SUBTRACT
      else if b = 4 then Some OP_MULTIPLY else if b = 5 then Some OP_DIVIDE
      else if b = 6 then Some OP_NEGATE else if b = 7 then Some OP_RETURN
      else None)"

definition sampleDecls :: "real decls" where
  "sampleDecls =
     \<lparr>STACK_MAX = 256, opcode = sampleOpcode,
      v_add = (+), v_sub = (-), v_mul = (*), v_div = (/), v_neg = uminus\<rparr>"

definition sampleVM :: "8 word list \<Rightarrow> real list \<Rightarrow> real list \<Rightarrow> real VM" where
  "sampleVM cs ks vs =
     \<lparr>chunk = \<lparr>code = cs, constants = ks\<rparr>, ip = 0,
      stack = (\<lambda>i. if i < length vs then vs ! i else 0), stackTop = length vs\<rparr>"


section \<open>Properties of the scanner\<close>

subsection \<open>The cursor stays in the buffer\<close>

text \<open>
  A character that is not the null byte lies in front of the terminator, and the scanner
  steps over such characters only. So \<open>scanToken\<close> leaves \<open>current\<close> at an offset of the
  buffer, the terminator included, when it finds it at one.
\<close>

lemma charAt_in: "charAt src i \<noteq> CHR 0x00 \<Longrightarrow> i < length src"
  by (simp add: charAt_def split: if_splits)

lemma lineComment_in:
  "current s \<le> length src \<Longrightarrow> current (lineComment src s) \<le> length src"
proof (induction src s rule: lineComment.induct)
  case (1 src s)
  show ?case
  proof (cases "peek src s \<noteq> CHR 0x0A \<and> \<not> isAtEnd src s")
    case True
    then have "current (snd (advance src s)) \<le> length src"
      using charAt_in [of src "current s"] by (simp add: isAtEnd_def advance_def)
    with True "1.IH" have "current (lineComment src (snd (advance src s))) \<le> length src"
      by simp
    moreover from True have "lineComment src s = lineComment src (snd (advance src s))"
      by (subst lineComment.simps) simp
    ultimately show ?thesis by simp
  next
    case False
    then have "lineComment src s = s" by (subst lineComment.simps) auto
    with "1.prems" show ?thesis by simp
  qed
qed

lemma identifierLoop_in:
  "current s \<le> length src \<Longrightarrow> current (identifierLoop src s) \<le> length src"
proof (induction src s rule: identifierLoop.induct)
  case (1 src s)
  show ?case
  proof (cases "isAlpha (peek src s) \<or> isDigit (peek src s)")
    case True
    then have "peek src s \<noteq> CHR 0x00" by auto
    then have "current (snd (advance src s)) \<le> length src"
      using charAt_in [of src "current s"] by (simp add: peek_def advance_def)
    with True "1.IH" have "current (identifierLoop src (snd (advance src s))) \<le> length src"
      by simp
    moreover from True have "identifierLoop src s = identifierLoop src (snd (advance src s))"
      by (subst identifierLoop.simps) simp
    ultimately show ?thesis by simp
  next
    case False
    then have "identifierLoop src s = s" by (subst identifierLoop.simps) auto
    with "1.prems" show ?thesis by simp
  qed
qed

lemma digitLoop_in:
  "current s \<le> length src \<Longrightarrow> current (digitLoop src s) \<le> length src"
proof (induction src s rule: digitLoop.induct)
  case (1 src s)
  show ?case
  proof (cases "isDigit (peek src s)")
    case True
    then have "peek src s \<noteq> CHR 0x00" by auto
    then have "current (snd (advance src s)) \<le> length src"
      using charAt_in [of src "current s"] by (simp add: peek_def advance_def)
    with True "1.IH" have "current (digitLoop src (snd (advance src s))) \<le> length src"
      by simp
    moreover from True have "digitLoop src s = digitLoop src (snd (advance src s))"
      by (subst digitLoop.simps) simp
    ultimately show ?thesis by simp
  next
    case False
    then have "digitLoop src s = s" by (subst digitLoop.simps) auto
    with "1.prems" show ?thesis by simp
  qed
qed

lemma stringLoop_in:
  "current s \<le> length src \<Longrightarrow> current (stringLoop src s) \<le> length src"
proof (induction src s rule: stringLoop.induct)
  case (1 src s)
  let ?s1 = "snd (advance src (if peek src s = CHR 0x0A then s\<lparr>line := line s + 1\<rparr> else s))"
  show ?case
  proof (cases "peek src s \<noteq> CHR 0x22 \<and> \<not> isAtEnd src s")
    case True
    then have "current ?s1 \<le> length src"
      using charAt_in [of src "current s"] by (simp add: isAtEnd_def advance_def)
    with True "1.IH" have "current (stringLoop src ?s1) \<le> length src"
      by simp
    moreover from True have "stringLoop src s = stringLoop src ?s1"
      by (subst stringLoop.simps) simp
    ultimately show ?thesis by simp
  next
    case False
    then have "stringLoop src s = s" by (subst stringLoop.simps) auto
    with "1.prems" show ?thesis by simp
  qed
qed

lemma skipWhitespace_in:
  "current s \<le> length src \<Longrightarrow> current (skipWhitespace src s) \<le> length src"
proof (induction src s rule: skipWhitespace.induct)
  case (1 src s)
  let ?c = "peek src s"
  consider (ws) "?c = CHR '' '' \<or> ?c = CHR 0x0D \<or> ?c = CHR 0x09"
    | (nl) "?c = CHR 0x0A"
    | (lc) "?c = CHR ''/''" "peekNext src s = CHR ''/''"
    | (other) "?c \<noteq> CHR '' ''" "?c \<noteq> CHR 0x0D" "?c \<noteq> CHR 0x09" "?c \<noteq> CHR 0x0A"
        "?c = CHR ''/'' \<longrightarrow> peekNext src s \<noteq> CHR ''/''"
    by blast
  then show ?case
  proof cases
    case ws
    then have "?c \<noteq> CHR 0x00" by auto
    then have in1: "current (snd (advance src s)) \<le> length src"
      using charAt_in [of src "current s"] by (simp add: peek_def advance_def)
    from ws have "skipWhitespace src s = skipWhitespace src (snd (advance src s))"
      by (subst skipWhitespace.simps) (simp add: Let_def)
    moreover from ws in1 have "current (skipWhitespace src (snd (advance src s))) \<le> length src"
      by (intro "1.IH"(1)) auto
    ultimately show ?thesis by simp
  next
    case nl
    let ?s1 = "snd (advance src (s\<lparr>line := line s + 1\<rparr>))"
    from nl have "?c \<noteq> CHR 0x00" by auto
    then have in1: "current ?s1 \<le> length src"
      using charAt_in [of src "current s"] by (simp add: peek_def advance_def)
    from nl have "skipWhitespace src s = skipWhitespace src ?s1"
      by (subst skipWhitespace.simps) (simp add: Let_def)
    moreover from nl in1 have "current (skipWhitespace src ?s1) \<le> length src"
      by (intro "1.IH"(2)) auto
    ultimately show ?thesis by simp
  next
    case lc
    from "1.prems" have in1: "current (lineComment src s) \<le> length src"
      by (rule lineComment_in)
    from lc have "skipWhitespace src s = skipWhitespace src (lineComment src s)"
      by (subst skipWhitespace.simps) (simp add: Let_def)
    moreover from lc in1 have "current (skipWhitespace src (lineComment src s)) \<le> length src"
      by (intro "1.IH"(3)) auto
    ultimately show ?thesis by simp
  next
    case other
    then have "skipWhitespace src s = s"
      by (subst skipWhitespace.simps) (auto simp: Let_def)
    with "1.prems" show ?thesis by simp
  qed
qed

lemma advance_in:
  "\<not> isAtEnd src s \<Longrightarrow> current s \<le> length src \<Longrightarrow> current (snd (advance src s)) \<le> length src"
  using charAt_in [of src "current s"] by (simp add: isAtEnd_def advance_def)

lemma match_in:
  "current s \<le> length src \<Longrightarrow> current (snd (match src c s)) \<le> length src"
  using charAt_in [of src "current s"] by (auto simp: match_def isAtEnd_def)

lemma number_tok_in:
  assumes "current s \<le> length src"
  shows "current (snd (number_tok src s)) \<le> length src"
proof -
  let ?s1 = "digitLoop src s"
  from assms have 1: "current ?s1 \<le> length src" by (rule digitLoop_in)
  show ?thesis
  proof (cases "peek src ?s1 = CHR ''.'' \<and> isDigit (peekNext src ?s1)")
    case True
    then have "\<not> isAtEnd src ?s1" by (simp add: isAtEnd_def peek_def)
    with 1 have "current (snd (advance src ?s1)) \<le> length src" by (simp add: advance_in)
    then have "current (digitLoop src (snd (advance src ?s1))) \<le> length src"
      by (rule digitLoop_in)
    with True show ?thesis by (simp add: number_tok_def Let_def)
  next
    case False
    with 1 show ?thesis by (auto simp: number_tok_def Let_def)
  qed
qed

lemma string_tok_in:
  assumes "current s \<le> length src"
  shows "current (snd (string_tok src s)) \<le> length src"
proof -
  from assms have 1: "current (stringLoop src s) \<le> length src" by (rule stringLoop_in)
  then show ?thesis
    using advance_in [of src "stringLoop src s"]
    by (simp add: string_tok_def Let_def)
qed

lemma scanToken_in_buffer:
  assumes "current s \<le> length src"
  shows "current (snd (scanToken src s)) \<le> length src"
proof -
  let ?s2 = "(skipWhitespace src s)\<lparr>start := current (skipWhitespace src s)\<rparr>"
  from assms have 2: "current ?s2 \<le> length src"
    using skipWhitespace_in [of s src] by simp
  show ?thesis
  proof (cases "isAtEnd src ?s2")
    case True
    with 2 show ?thesis by (simp add: scanToken_def Let_def)
  next
    case False
    let ?s3 = "snd (advance src ?s2)"
    from False 2 have 3: "current ?s3 \<le> length src" by (simp add: advance_in)
    have "advance src ?s2 = (fst (advance src ?s2), ?s3)" by simp
    with False 3 show ?thesis
      using identifierLoop_in [of ?s3 src] number_tok_in [of ?s3 src] string_tok_in [of ?s3 src]
        match_in [of ?s3 src "CHR ''=''"]
      by (simp add: scanToken_def Let_def identifier_tok_def twoChar_def split_beta
            del: prod.collapse)
  qed
qed

subsection \<open>Lexemes\<close>

text \<open>
  A lexeme \<open>w\<close> in a source text: the text is \<open>pre @ w @ post\<close>, the lexeme starts at the
  offset \<open>length pre\<close>.
\<close>

lemma charAt_lexeme:
  "i < length w \<Longrightarrow> charAt (pre @ w @ post) (length pre + i) = w ! i"
  by (simp add: charAt_def nth_append)

lemma memcmp_lexeme:
  assumes "st + n = length w"
  shows "memcmp_eq (pre @ w @ post) (length pre + st) rest n \<longleftrightarrow> drop st w = take n rest"
proof -
  have "map (\<lambda>i. charAt (pre @ w @ post) (length pre + st + i)) [0..<n]
      = map (\<lambda>i. w ! (st + i)) [0..<n]"
    using assms by (auto simp: charAt_lexeme add.assoc)
  also have "\<dots> = drop st w"
    using assms by (auto simp: list_eq_iff_nth_eq)
  finally show ?thesis by (simp add: memcmp_eq_def)
qed

lemma checkKeyword_lexeme:
  assumes "start s = length pre" "current s = length pre + length w"
  shows "checkKeyword (pre @ w @ post) s st n rest ty =
         (if length w = st + n \<and> drop st w = take n rest then ty else TOKEN_IDENTIFIER)"
proof (cases "length w = st + n")
  case True
  then have "memcmp_eq (pre @ w @ post) (length pre + st) rest n \<longleftrightarrow> drop st w = take n rest"
    by (intro memcmp_lexeme) simp
  with True assms show ?thesis by (simp add: checkKeyword_def)
next
  case False
  with assms show ?thesis by (auto simp: checkKeyword_def)
qed

text \<open>\<open>identifierType\<close> of a lexeme is its entry in the table, whatever the lexeme.\<close>

lemma identifierType_lexeme:
  assumes "start s = length pre" "current s = length pre + length w"
  shows "identifierType (pre @ w @ post) s = keywordType w"
proof (cases w)
  case Nil
  with assms show ?thesis
    by (simp add: identifierType_def Let_def checkKeyword_def keywordType_def keywordTable_def)
next
  case (Cons c cs)
  then have c0: "charAt (pre @ w @ post) (start s) = c"
    using assms charAt_lexeme [of 0 w pre post] by simp
  show ?thesis
  proof (cases cs)
    case Nil
    show ?thesis
      unfolding identifierType_def Let_def checkKeyword_lexeme [OF assms] c0
      using Nil \<open>w = c # cs\<close> assms
      by (simp add: keywordType_def keywordTable_def)
  next
    case (Cons d ds)
    then have c1: "charAt (pre @ w @ post) (start s + 1) = d"
      using assms \<open>w = c # cs\<close> charAt_lexeme [of 1 w pre post] by simp
    show ?thesis
      unfolding identifierType_def Let_def checkKeyword_lexeme [OF assms] c0 c1
      using Cons \<open>w = c # cs\<close> assms
      by (auto simp add: keywordType_def keywordTable_def)
  qed
qed

lemma identifierLoop_lexeme:
  assumes "current s = length pre"
    and "list_all isAlnum w"
    and "post = [] \<or> \<not> isAlnum (hd post)"
  shows "identifierLoop (pre @ w @ post) s = s\<lparr>current := length pre + length w\<rparr>"
  using assms
proof (induction w arbitrary: pre s)
  case Nil
  then have "\<not> (isAlpha (peek (pre @ post) s) \<or> isDigit (peek (pre @ post) s))"
    by (cases post) (auto simp: peek_def charAt_def isAlnum_def)
  then have "identifierLoop (pre @ post) s = s"
    by (subst identifierLoop.simps) simp
  with Nil show ?case by simp
next
  case (Cons c cs)
  let ?src = "pre @ (c # cs) @ post"
  from Cons.prems have pk: "peek ?src s = c" and c: "isAlpha c \<or> isDigit c"
    by (simp_all add: peek_def charAt_def isAlnum_def)
  have src: "?src = (pre @ [c]) @ cs @ post" by simp
  let ?s1 = "snd (advance ?src s)"
  from Cons.prems have "current ?s1 = length (pre @ [c])"
    by (simp add: advance_def)
  moreover from Cons.prems have "list_all isAlnum cs" by simp
  ultimately have "identifierLoop ((pre @ [c]) @ cs @ post) ?s1
      = ?s1\<lparr>current := length (pre @ [c]) + length cs\<rparr>"
    using Cons.prems(3) by (rule Cons.IH)
  then have "identifierLoop ?src ?s1 = s\<lparr>current := length pre + length (c # cs)\<rparr>"
    by (simp add: advance_def)
  moreover have "identifierLoop ?src s = identifierLoop ?src ?s1"
    using pk c by (subst identifierLoop.simps) simp
  ultimately show ?case by simp
qed

lemma isAlpha_not_special:
  assumes "isAlpha c"
  shows "c \<noteq> CHR '' ''" "c \<noteq> CHR 0x0D" "c \<noteq> CHR 0x09" "c \<noteq> CHR 0x0A" "c \<noteq> CHR ''/''"
    "c \<noteq> CHR 0x00"
  using assms by (auto simp: isAlpha_def charCode_def)

lemma skipWhitespace_alpha:
  assumes "isAlpha (peek src s)"
  shows "skipWhitespace src s = s"
  using isAlpha_not_special [OF assms]
  by (subst skipWhitespace.simps) (simp add: Let_def)

subsection \<open>Keywords\<close>

text \<open>
  Claim C2, as the code has it. Let the scanner stand at the start of a lexeme \<open>w\<close> that
  begins with a letter or an underscore, consists of letters, digits and underscores,
  and is followed by the end of the text or by a character that is none of these. Then
  \<open>scanToken\<close> returns the token of the whole lexeme, and its type is the entry of \<open>w\<close> in
  the keyword table of the code: the keyword type for each of the sixteen spellings
  \<open>and\<close>, \<open>class\<close>, \<open>else\<close>, \<open>false\<close>, \<open>for\<close>, \<open>fn\<close>, \<open>if\<close>, \<open>null\<close>, \<open>or\<close>, \<open>println\<close>,
  \<open>return\<close>, \<open>super\<close>, \<open>this\<close>, \<open>true\<close>, \<open>var\<close>, \<open>while\<close>, and \<open>TOKEN_IDENTIFIER\<close> for
  every other lexeme, so for every proper prefix, proper extension and case variant of
  one of them, and for \<open>fun\<close>.
\<close>

theorem scanToken_keyword:
  assumes "current s = length pre"
    and "w \<noteq> []" and "isAlpha (hd w)" and "list_all isAlnum w"
    and "post = [] \<or> \<not> isAlnum (hd post)"
  shows "scanToken (pre @ w @ post) s =
     (\<lparr>type_tok = keywordType w, start_tok = InSource (length pre),
       length_tok = int (length w), line_tok = line s\<rparr>,
      \<lparr>start = length pre, current = length pre + length w, line = line s\<rparr>)"
proof -
  from assms(2) obtain c cs where w: "w = c # cs" by (cases w) auto
  let ?src = "pre @ w @ post"
  let ?s2 = "s\<lparr>start := current s\<rparr>"
  let ?s3 = "?s2\<lparr>current := current s + 1\<rparr>"
  let ?s4 = "?s3\<lparr>current := length pre + length w\<rparr>"
  from assms w have pk: "peek ?src s = c" and al: "isAlpha c"
    by (simp_all add: peek_def charAt_def)
  then have sk: "skipWhitespace ?src s = s"
    by (simp add: skipWhitespace_alpha)
  from pk al have ne: "\<not> isAtEnd ?src ?s2"
    using isAlpha_not_special(6) [of c] by (simp add: isAtEnd_def peek_def)
  from pk have adv: "advance ?src ?s2 = (c, ?s3)"
    by (simp add: advance_def peek_def)
  have "identifierLoop ((pre @ [c]) @ cs @ post) ?s3
      = ?s3\<lparr>current := length (pre @ [c]) + length cs\<rparr>"
    using assms w by (intro identifierLoop_lexeme) simp_all
  then have lp: "identifierLoop ?src ?s3 = ?s4"
    using w by simp
  have "identifierType ?src ?s4 = keywordType w"
    using assms(1) by (intro identifierType_lexeme) simp_all
  then have "identifier_tok ?src ?s3 =
     (\<lparr>type_tok = keywordType w, start_tok = InSource (length pre),
       length_tok = int (length w), line_tok = line s\<rparr>, ?s4)"
    using assms(1) lp by (simp add: identifier_tok_def makeToken_def Let_def)
  moreover have "scanToken ?src s = identifier_tok ?src ?s3"
    using sk ne adv al by (simp add: scanToken_def Let_def)
  moreover have "?s4 = \<lparr>start = length pre, current = length pre + length w, line = line s\<rparr>"
    using assms(1) by simp
  ultimately show ?thesis by simp
qed

text \<open>
  The lexeme \<open>while\<close> inside a line, and the lexemes \<open>fn\<close>, \<open>whil\<close>, \<open>whiles\<close> and
  \<open>While\<close> alone.
\<close>

theorem scanToken_keyword_witness:
  "scanToken ''x = while (y)'' \<lparr>start = 2, current = 4, line = 1\<rparr> =
     (\<lparr>type_tok = TOKEN_WHILE, start_tok = InSource 4, length_tok = 5, line_tok = 1\<rparr>,
      \<lparr>start = 4, current = 9, line = 1\<rparr>) \<and>
   type_tok (fst (scanToken ''fn'' initScanner)) = TOKEN_FUN \<and>
   type_tok (fst (scanToken ''whil'' initScanner)) = TOKEN_IDENTIFIER \<and>
   type_tok (fst (scanToken ''whiles'' initScanner)) = TOKEN_IDENTIFIER \<and>
   type_tok (fst (scanToken ''While'' initScanner)) = TOKEN_IDENTIFIER"
  using scanToken_keyword [where pre="''x = ''" and w="''while''" and post="'' (y)''"
      and s="\<lparr>start = 2, current = 4, line = 1\<rparr>"]
    scanToken_keyword [where pre="[]" and w="''fn''" and post="[]" and s=initScanner]
    scanToken_keyword [where pre="[]" and w="''whil''" and post="[]" and s=initScanner]
    scanToken_keyword [where pre="[]" and w="''whiles''" and post="[]" and s=initScanner]
    scanToken_keyword [where pre="[]" and w="''While''" and post="[]" and s=initScanner]
  by (simp add: keywordType_def keywordTable_def isAlnum_def isAlpha_def isDigit_def charCode_def
        initScanner_def)

text \<open>
  Claim C2 as stated fails for the spelling \<open>fun\<close> of the keyword set of the spec:
  scanning the source text \<open>fun\<close> yields a token of type \<open>TOKEN_IDENTIFIER\<close>.
\<close>

theorem scanToken_keyword_counterexample:
  "scanToken ''fun'' initScanner =
     (\<lparr>type_tok = TOKEN_IDENTIFIER, start_tok = InSource 0, length_tok = 3, line_tok = 1\<rparr>,
      \<lparr>start = 0, current = 3, line = 1\<rparr>)"
  by code_simp

subsection \<open>End of input\<close>

lemma skipWhitespace_at_end:
  "isAtEnd src s \<Longrightarrow> skipWhitespace src s = s"
  by (subst skipWhitespace.simps) (simp add: Let_def isAtEnd_def peek_def)

lemma scanToken_at_end:
  "isAtEnd src s \<Longrightarrow>
   scanToken src s = (makeToken (s\<lparr>start := current s\<rparr>) TOKEN_EOF, s\<lparr>start := current s\<rparr>)"
  by (simp add: scanToken_def skipWhitespace_at_end Let_def isAtEnd_def)

lemma scanTypes_at_end:
  "isAtEnd src s \<Longrightarrow> scanTypes n src s = replicate n TOKEN_EOF"
proof (induction n arbitrary: s)
  case 0
  show ?case by simp
next
  case (Suc n)
  from Suc.prems have "isAtEnd src (s\<lparr>start := current s\<rparr>)"
    by (simp add: isAtEnd_def)
  from Suc.IH [OF this] Suc.prems show ?case
    by (simp add: scanToken_at_end makeToken_def)
qed

text \<open>
  Claim C9, as the code has it. Once \<open>current\<close> stands at the terminating null byte, a
  call of \<open>scanToken\<close> returns a \<open>TOKEN_EOF\<close> token of length 0 and leaves \<open>current\<close> and
  \<open>line\<close> as they are; it sets \<open>start\<close> to \<open>current\<close>. The scanner it leaves behind is
  again at the end, a further call returns the same token and changes nothing at all,
  and any number of successive calls return \<open>TOKEN_EOF\<close> tokens only.
\<close>

theorem scanToken_eof_idempotent:
  assumes "isAtEnd src s"
    and "tok = \<lparr>type_tok = TOKEN_EOF, start_tok = InSource (current s), length_tok = 0,
                line_tok = line s\<rparr>"
    and "s' = s\<lparr>start := current s\<rparr>"
  shows "scanToken src s = (tok, s') \<and> scanToken src s' = (tok, s') \<and> isAtEnd src s' \<and>
         scanTypes n src s = replicate n TOKEN_EOF"
proof -
  from assms have e: "isAtEnd src s'" by (simp add: isAtEnd_def)
  from assms have "scanToken src s = (tok, s')"
    by (simp add: scanToken_at_end makeToken_def)
  moreover from e assms have "scanToken src s' = (tok, s')"
    by (simp add: scanToken_at_end makeToken_def)
  ultimately show ?thesis using e assms(1) by (simp add: scanTypes_at_end)
qed

theorem scanToken_eof_idempotent_witness:
  "scanToken ''a'' \<lparr>start = 0, current = 1, line = 1\<rparr> =
     (\<lparr>type_tok = TOKEN_EOF, start_tok = InSource 1, length_tok = 0, line_tok = 1\<rparr>,
      \<lparr>start = 1, current = 1, line = 1\<rparr>) \<and>
   scanToken ''a'' \<lparr>start = 1, current = 1, line = 1\<rparr> =
     (\<lparr>type_tok = TOKEN_EOF, start_tok = InSource 1, length_tok = 0, line_tok = 1\<rparr>,
      \<lparr>start = 1, current = 1, line = 1\<rparr>) \<and>
   scanTypes 3 ''a'' \<lparr>start = 0, current = 1, line = 1\<rparr> = [TOKEN_EOF, TOKEN_EOF, TOKEN_EOF]"
  using scanToken_eof_idempotent [where src="''a''" and s="\<lparr>start = 0, current = 1, line = 1\<rparr>"
      and tok="\<lparr>type_tok = TOKEN_EOF, start_tok = InSource 1, length_tok = 0, line_tok = 1\<rparr>"
      and s'="\<lparr>start = 1, current = 1, line = 1\<rparr>" and n=3]
  by (simp add: isAtEnd_def charAt_def numeral_3_eq_3)

text \<open>
  Claim C9 as stated fails for the field \<open>start\<close> of the scanner state. After the one
  token of the source text \<open>a\<close> the scanner stands at the null byte with \<open>start = 0\<close>;
  the next call of \<open>scanToken\<close> leaves it with \<open>start = 1\<close>.
\<close>

theorem scanToken_eof_counterexample:
  "isAtEnd ''a'' (snd (scanToken ''a'' initScanner)) \<and>
   snd (scanToken ''a'' initScanner) = \<lparr>start = 0, current = 1, line = 1\<rparr> \<and>
   snd (scanToken ''a'' (snd (scanToken ''a'' initScanner))) = \<lparr>start = 1, current = 1, line = 1\<rparr>"
  by code_simp

subsection \<open>Block comments\<close>

text \<open>
  At a slash that is not followed by a second slash, \<open>skipWhitespace\<close> returns at once:
  the test \<open>peek() == '*'\<close> of the block comment branch looks at the slash itself.
\<close>

lemma skipWhitespace_slash:
  assumes "peek src s = CHR ''/''" and "peekNext src s \<noteq> CHR ''/''"
  shows "skipWhitespace src s = s"
  using assms by (subst skipWhitespace.simps) (simp add: Let_def)

text \<open>
  Claim C1 on the code. The source text \<open>/* a */\<close> is a block comment and nothing else.
  \<open>scanToken\<close> does not consume it: six successive calls return the slash, the asterisk
  and the identifier inside the comment as tokens, then the closing asterisk and slash,
  then the end of input.
\<close>

theorem block_comment_scanned_as_tokens:
  "scanTypes 6 ''/* a */'' initScanner =
     [TOKEN_SLASH, TOKEN_ASTERISK, TOKEN_IDENTIFIER, TOKEN_ASTERISK, TOKEN_SLASH, TOKEN_EOF]"
  by code_simp

text \<open>
  No token that \<open>scanToken\<close> returns carries the message of the unterminated comment,
  whatever the source text and the scanner state.
\<close>

lemma scanToken_never_comment_error:
  "start_tok (fst (scanToken src s)) \<noteq> Static ''Unterminated multiline comment error.''"
  by (simp add: scanToken_def Let_def identifier_tok_def number_tok_def string_tok_def
        twoChar_def makeToken_def errorToken_def advance_def split: prod.splits)

text \<open>
  Claim C4 on the code. The source text \<open>/* abc\<close> ends inside an unclosed block comment.
  The calls of \<open>scanToken\<close> return a slash, an asterisk, an identifier and the end of
  input: no \<open>TOKEN_ERROR\<close> token.
\<close>

theorem unterminated_comment_no_error:
  "scanTypes 4 ''/* abc'' initScanner =
     [TOKEN_SLASH, TOKEN_ASTERISK, TOKEN_IDENTIFIER, TOKEN_EOF]"
  by code_simp

section \<open>Properties of the virtual machine\<close>

subsection \<open>The stack\<close>

lemma push_in_array:
  assumes "push D v vm = Inr vm'"
  shows "stackTop vm < STACK_MAX D" and "stackTop vm' = stackTop vm + 1"
    and "stack vm' = (stack vm)(stackTop vm := v)"
  using assms by (auto simp: push_def split: if_splits)






text \<open>
  Claim C6. \<open>pop\<close> on an empty stack (the top at the base) reports the underflow and
  the process exits with the VM as it was, nothing of it changed. On a stack that is
  not empty, \<open>pop\<close> returns the value of the slot under the top and moves the top down
  to it; this is the value pushed last: with room in the array, a \<open>push\<close> followed by a
  \<open>pop\<close> returns the pushed value and leaves the top where it was.
\<close>

theorem pop_underflow_or_top:
  "(stackTop vm = 0 \<longrightarrow> pop vm = Inl (Exit StackUnderflow vm)) \<and>
   (stackTop vm \<noteq> 0 \<longrightarrow>
      pop vm = Inr (stack vm (stackTop vm - 1), vm\<lparr>stackTop := stackTop vm - 1\<rparr>)) \<and>
   (stackTop vm < STACK_MAX D \<longrightarrow>
      andThen (push D v vm) pop =
        Inr (v, vm\<lparr>stack := (stack vm)(stackTop vm := v)\<rparr>))"
  by (simp add: pop_def push_def andThen_def)

theorem pop_underflow_or_top_witness:
  "pop (sampleVM [] [] []) = Inl (Exit StackUnderflow (sampleVM [] [] [])) \<and>
   pop (sampleVM [] [] [3, 4]) = Inr (4, (sampleVM [] [] [3, 4])\<lparr>stackTop := 1\<rparr>) \<and>
   andThen (push sampleDecls 9 (sampleVM [] [] [3, 4])) pop =
     Inr (9, (sampleVM [] [] [3, 4])\<lparr>stack := (stack (sampleVM [] [] [3, 4]))(2 := 9)\<rparr>)"
  using pop_underflow_or_top [where vm="sampleVM [] [] []" and D=sampleDecls and v=9]
    pop_underflow_or_top [where vm="sampleVM [] [] [3, 4]" and D=sampleDecls and v=9]
  by (simp add: sampleDecls_def sampleVM_def numeral_2_eq_2)

subsection \<open>The dispatch loop\<close>

lemma step_fetch:
  "ip vm < length (code (chunk vm)) \<Longrightarrow>
   step D vm =
     (let vm1 = vm\<lparr>ip := ip vm + 1\<rparr> in
      case opcode D (code (chunk vm) ! ip vm) of
         Some OP_CONSTANT \<Rightarrow>
           andThen (READ_BYTE vm1) (\<lambda>(i, vm2).
           andThen (constantAt vm2 (unat i)) (\<lambda>constant. push D constant vm2))
       | Some OP_CONSTANT_LONG \<Rightarrow>
           andThen (readLongIndex vm1) (\<lambda>(index, vm2).
           andThen (constantAt vm2 (unat index)) (\<lambda>constant. push D constant vm2))
       | Some OP_ADD \<Rightarrow> BINARY_OP D (v_add D) vm1
       | Some OP_SUBTRACT \<Rightarrow> BINARY_OP D (v_sub D) vm1
       | Some OP_MULTIPLY \<Rightarrow> BINARY_OP D (v_mul D) vm1
       | Some OP_DIVIDE \<Rightarrow> BINARY_OP D (v_div D) vm1
       | Some OP_NEGATE \<Rightarrow> andThen (pop vm1) (\<lambda>(x, vm2). push D (v_neg D x) vm2)
       | Some OP_RETURN \<Rightarrow> Inl (Returned INTERPRET_OK vm1)
       | None \<Rightarrow> Inr vm1)"
  by (simp add: step_def READ_BYTE_def andThen_def Let_def)

lemma BINARY_OP_two:
  "2 \<le> stackTop vm \<Longrightarrow>
   BINARY_OP D op vm =
     push D (op (stack vm (stackTop vm - 2)) (stack vm (stackTop vm - 1)))
       (vm\<lparr>stackTop := stackTop vm - 2\<rparr>)"
  by (simp add: BINARY_OP_def pop_def andThen_def diff_diff_eq numeral_2_eq_2 [symmetric])

text \<open>
  The stack stays in its array. A turn of the loop that goes on from a VM with the top
  inside the array (at most at \<open>STACK_MAX\<close>, the array full) leaves the top inside the
  array, and leaves every \<open>stack i\<close> with \<open>i\<close> outside the array as it was. The reads of
  \<open>pop\<close> are of the slot under the top, so inside the array too.
\<close>

lemma pop_in_array:
  assumes "pop vm = Inr (x, vm')"
  shows "stackTop vm' < stackTop vm" and "stack vm' = stack vm" and "x = stack vm (stackTop vm')"
  using assms by (auto simp: pop_def split: if_splits)

lemma step_in_array:
  assumes "step D vm = Inr vm'" and "stackTop vm \<le> STACK_MAX D" and "STACK_MAX D \<le> i"
  shows "stackTop vm' \<le> STACK_MAX D \<and> stack vm' i = stack vm i"
proof -
  from assms(1) obtain b vm1 where rd: "READ_BYTE vm = Inr (b, vm1)"
    by (auto simp: step_def andThen_Inr)
  then have vm1: "vm1 = vm\<lparr>ip := ip vm + 1\<rparr>" and inr: "ip vm < length (code (chunk vm))"
    by (auto simp: READ_BYTE_def split: if_splits)
  have psh: "stackTop w' \<le> STACK_MAX D \<and> stack w' i = stack w i"
    if "push D x w = Inr w'" for x w w'
    using push_in_array [OF that] assms(3) by auto
  have rb: "stackTop w' = stackTop w \<and> stack w' = stack w"
    if "READ_BYTE w = Inr (y, w')" for y w w'
    using that by (auto simp: READ_BYTE_def split: if_splits)
  have rl: "stackTop w' = stackTop w \<and> stack w' = stack w"
    if "readLongIndex w = Inr (y, w')" for y w w'
    using that by (auto simp: readLongIndex_def andThen_Inr dest!: rb)
  have bin: "stackTop w' \<le> STACK_MAX D \<and> stack w' i = stack w i"
    if "BINARY_OP D f w = Inr w'" for f w w'
    using that
    by (auto simp: BINARY_OP_def andThen_Inr dest!: pop_in_array(2) psh)
  from assms(1) inr vm1 show ?thesis
    using assms(2)
    by (auto simp: step_fetch Let_def andThen_Inr split: option.splits OpCode.splits
             dest!: rb rl bin pop_in_array(2) psh)
qed

text \<open>
  Claim C7. When the instruction at \<open>ip\<close> is one of \<open>OP_ADD\<close>, \<open>OP_SUBTRACT\<close>,
  \<open>OP_MULTIPLY\<close>, \<open>OP_DIVIDE\<close> and the stack holds at least two values, the value on top
  of the stack (popped first, pushed second) is the right operand \<open>b\<close> and the value
  under it (popped second) is the left operand \<open>a\<close>: the turn of the loop pushes
  \<open>a op b\<close> onto the stack without the two, so \<open>OP_SUBTRACT\<close> pushes \<open>a - b\<close> and
  \<open>OP_DIVIDE\<close> pushes \<open>a / b\<close>.
\<close>

theorem binary_operand_order:
  assumes "ip vm < length (code (chunk vm))" and "2 \<le> stackTop vm"
    and "a = stack vm (stackTop vm - 2)" and "b = stack vm (stackTop vm - 1)"
    and "vm' = vm\<lparr>ip := ip vm + 1, stackTop := stackTop vm - 2\<rparr>"
    and "oc = opcode D (code (chunk vm) ! ip vm)"
  shows "(oc = Some OP_ADD \<longrightarrow> step D vm = push D (v_add D a b) vm') \<and>
         (oc = Some OP_SUBTRACT \<longrightarrow> step D vm = push D (v_sub D a b) vm') \<and>
         (oc = Some OP_MULTIPLY \<longrightarrow> step D vm = push D (v_mul D a b) vm') \<and>
         (oc = Some OP_DIVIDE \<longrightarrow> step D vm = push D (v_div D a b) vm')"
  using assms by (simp add: step_fetch BINARY_OP_two Let_def)

text \<open>With 10 pushed first and 4 second: \<open>OP_SUBTRACT\<close> leaves 6, \<open>OP_DIVIDE\<close> leaves 5/2.\<close>

theorem binary_operand_order_witness:
  "step sampleDecls (sampleVM [3] [] [10, 4]) =
     Inr ((sampleVM [3] [] [10, 4])\<lparr>ip := 1,
            stack := (stack (sampleVM [3] [] [10, 4]))(0 := 6), stackTop := 1\<rparr>) \<and>
   step sampleDecls (sampleVM [5] [] [10, 4]) =
     Inr ((sampleVM [5] [] [10, 4])\<lparr>ip := 1,
            stack := (stack (sampleVM [5] [] [10, 4]))(0 := 5 / 2), stackTop := 1\<rparr>)"
  using binary_operand_order [where vm="sampleVM [3] [] [10, 4]" and a=10 and b=4
      and vm'="(sampleVM [3] [] [10, 4])\<lparr>ip := 1, stackTop := 0\<rparr>"
      and oc="Some OP_SUBTRACT" and D=sampleDecls]
    binary_operand_order [where vm="sampleVM [5] [] [10, 4]" and a=10 and b=4
      and vm'="(sampleVM [5] [] [10, 4])\<lparr>ip := 1, stackTop := 0\<rparr>"
      and oc="Some OP_DIVIDE" and D=sampleDecls]
  by (simp add: sampleDecls_def sampleOpcode_def sampleVM_def push_def)

lemma long_index_value:
  fixes b0 b1 b2 :: "8 word"
  shows "unat ((push_bit 16 (ucast b0) OR push_bit 8 (ucast b1)) OR ucast b2 :: 32 word)
         = 65536 * unat b0 + 256 * unat b1 + unat b2"
proof -
  let ?a = "push_bit 16 (ucast b0) :: 32 word"
  let ?b = "push_bit 8 (ucast b1) :: 32 word"
  let ?c = "ucast b2 :: 32 word"
  have ab: "?a OR ?b = ?a + ?b"
    by (rule disjunctive_add [symmetric])
       (auto simp: bit_simps dest: bit_imp_le_length)
  have abc: "(?a OR ?b) OR ?c = (?a OR ?b) + ?c"
    by (rule disjunctive_add [symmetric])
       (auto simp: bit_simps dest: bit_imp_le_length)
  have u0: "unat b0 < 256" "unat b1 < 256" "unat b2 < 256"
    using unsigned_less [of b0] unsigned_less [of b1] unsigned_less [of b2] by simp_all
  have "unat (?a + ?b + ?c) = 65536 * unat b0 + 256 * unat b1 + unat b2"
    using u0
    by (simp add: unat_word_ariths unsigned_push_bit_eq unsigned_ucast_eq push_bit_eq_mult
          take_bit_eq_mod)
  moreover have "(?a OR ?b) OR ?c = ?a + ?b + ?c"
    using abc by (simp only: ab)
  ultimately show ?thesis by simp
qed

lemma readLongIndex_bytes:
  assumes "ip vm + 2 < length (code (chunk vm))"
  shows "readLongIndex vm =
     Inr (((0 OR push_bit 16 (ucast (code (chunk vm) ! ip vm))) OR
              push_bit 8 (ucast (code (chunk vm) ! (ip vm + 1)))) OR
              ucast (code (chunk vm) ! (ip vm + 2)),
          vm\<lparr>ip := ip vm + 3\<rparr>)"
  using assms by (simp add: readLongIndex_def READ_BYTE_def andThen_def)

text \<open>
  Claim C8. When the instruction at \<open>ip\<close> is \<open>OP_CONSTANT_LONG\<close> and its three operand
  bytes \<open>b0\<close>, \<open>b1\<close>, \<open>b2\<close> are in the code, the VM reads them as the 24-bit unsigned
  index \<open>65536 * b0 + 256 * b1 + b2\<close> (the first byte the most significant), moves
  \<open>ip\<close> behind them, and pushes the constant at that index of the constant table. The
  operand bytes \<open>0x00 0x01 0x01\<close> give the index 257.
\<close>

theorem constant_long_index:
  assumes "ip vm + 3 < length (code (chunk vm))"
    and "opcode D (code (chunk vm) ! ip vm) = Some OP_CONSTANT_LONG"
    and "b0 = code (chunk vm) ! (ip vm + 1)"
    and "b1 = code (chunk vm) ! (ip vm + 2)"
    and "b2 = code (chunk vm) ! (ip vm + 3)"
    and "index = 65536 * unat b0 + 256 * unat b1 + unat b2"
    and "index < length (constants (chunk vm))"
  shows "step D vm = push D (constants (chunk vm) ! index) (vm\<lparr>ip := ip vm + 4\<rparr>) \<and>
         (b0 = 0 \<and> b1 = 1 \<and> b2 = 1 \<longrightarrow> index = 257)"
proof -
  let ?vm1 = "vm\<lparr>ip := ip vm + 1\<rparr>"
  have three: "ip vm + 3 = Suc (Suc (Suc (ip vm)))" by simp
  from assms(1) have "ip ?vm1 + 2 < length (code (chunk ?vm1))" by simp
  from readLongIndex_bytes [OF this] assms(3-5)
  have rd: "readLongIndex ?vm1 =
      Inr (((0 OR push_bit 16 (ucast b0)) OR push_bit 8 (ucast b1)) OR ucast b2,
           vm\<lparr>ip := ip vm + 4\<rparr>)"
    by (simp add: three)
  from assms(1) have "ip vm < length (code (chunk vm))" by simp
  then have "step D vm =
      andThen (readLongIndex ?vm1) (\<lambda>(index, vm2).
        andThen (constantAt vm2 (unat index)) (\<lambda>constant. push D constant vm2))"
    using assms(2) by (simp add: step_fetch Let_def)
  with rd assms(6,7)
  have "step D vm = push D (constants (chunk vm) ! index) (vm\<lparr>ip := ip vm + 4\<rparr>)"
    by (simp add: andThen_def constantAt_def long_index_value)
  moreover have "b0 = 0 \<and> b1 = 1 \<and> b2 = 1 \<longrightarrow> index = 257"
    using assms(6) by simp
  ultimately show ?thesis by simp
qed

text \<open>
  A chunk with 258 constants, the constant at the index \<open>i\<close> being the number \<open>i\<close>, and
  the code \<open>OP_CONSTANT_LONG 0x00 0x01 0x01\<close>: the turn of the loop pushes 257.
\<close>

theorem constant_long_index_witness:
  "step sampleDecls (sampleVM [1, 0, 1, 1] (map real [0..<258]) []) =
     Inr ((sampleVM [1, 0, 1, 1] (map real [0..<258]) [])\<lparr>ip := 4,
            stack := (stack (sampleVM [1, 0, 1, 1] (map real [0..<258]) []))(0 := 257),
            stackTop := 1\<rparr>)"
  using constant_long_index [where vm="sampleVM [1, 0, 1, 1] (map real [0..<258]) []"
      and D=sampleDecls and ?b0.0=0 and ?b1.0=1 and ?b2.0=1 and index=257]
  by (simp add: sampleDecls_def sampleOpcode_def sampleVM_def push_def)

text \<open>
  Claim C10. When the byte fetched as the opcode is none of the eight opcodes, the turn
  of the loop does nothing but move \<open>ip\<close> behind that byte: it does not stop, it reports
  nothing, the stack is as it was. The loop goes on: \<open>run\<close> fetches and executes the
  byte that follows, and carries on from there as it does from any instruction.
\<close>

theorem unknown_opcode_skipped:
  assumes "ip vm < length (code (chunk vm))"
    and "opcode D (code (chunk vm) ! ip vm) = None"
    and "vm1 = vm\<lparr>ip := ip vm + 1\<rparr>"
  shows "step D vm = Inr vm1 \<and>
         run D vm = (case step D vm1 of Inl st \<Rightarrow> st | Inr vm2 \<Rightarrow> run D vm2) \<and>
         run D vm = run D vm1"
proof -
  from assms have s: "step D vm = Inr vm1"
    by (simp add: step_fetch Let_def)
  then have r: "run D vm = run D vm1" by (subst run.simps) simp
  have "run D vm1 = (case step D vm1 of Inl st \<Rightarrow> st | Inr vm2 \<Rightarrow> run D vm2)"
    by (rule run.simps)
  with s r show ?thesis by simp
qed

text \<open>
  The byte \<open>0xFF\<close> in front of \<open>OP_CONSTANT 0\<close> and \<open>OP_RETURN\<close>, with the constant 42:
  the run goes past the unknown byte, pushes 42 and returns.
\<close>

theorem unknown_opcode_skipped_witness:
  "step sampleDecls (sampleVM [255, 0, 0, 7] [42] []) =
     Inr ((sampleVM [255, 0, 0, 7] [42] [])\<lparr>ip := 1\<rparr>) \<and>
   run sampleDecls (sampleVM [255, 0, 0, 7] [42] []) =
     Returned INTERPRET_OK
       ((sampleVM [255, 0, 0, 7] [42] [])\<lparr>ip := 4,
          stack := (stack (sampleVM [255, 0, 0, 7] [42] []))(0 := 42), stackTop := 1\<rparr>)"
  using unknown_opcode_skipped [where vm="sampleVM [255, 0, 0, 7] [42] []" and D=sampleDecls
      and ?vm1.0="(sampleVM [255, 0, 0, 7] [42] [])\<lparr>ip := 1\<rparr>"]
  by (simp add: sampleDecls_def sampleOpcode_def sampleVM_def run.simps step_fetch Let_def
        READ_BYTE_def constantAt_def push_def andThen_def)

subsection \<open>interpret and the stack\<close>

text \<open>
  Claim C3, as the code has it. \<open>interpret\<close> sets the chunk and puts \<open>ip\<close> at the start of
  its code, and runs; it does not touch the stack. The run starts with the top of stack
  and the slots that the VM had before the call, and a chunk that returns at once hands
  them back unchanged. The stack is reset by \<open>initVM\<close> only.
\<close>

theorem interpret_keeps_stack:
  "stackTop (initVM vm) = 0 \<and>
   (\<exists>vm0. interpret_chunk D c vm = run D vm0 \<and> chunk vm0 = c \<and> ip vm0 = 0 \<and>
           stack vm0 = stack vm \<and> stackTop vm0 = stackTop vm) \<and>
   (code c \<noteq> [] \<and> opcode D (code c ! 0) = Some OP_RETURN \<longrightarrow>
      interpret_chunk D c vm = Returned INTERPRET_OK (vm\<lparr>chunk := c, ip := 1\<rparr>))"
proof (intro conjI impI)
  show "stackTop (initVM vm) = 0" by (simp add: initVM_def resetStack_def)
  show "\<exists>vm0. interpret_chunk D c vm = run D vm0 \<and> chunk vm0 = c \<and> ip vm0 = 0 \<and>
           stack vm0 = stack vm \<and> stackTop vm0 = stackTop vm"
    by (rule exI [of _ "vm\<lparr>chunk := c, ip := 0\<rparr>"]) (simp add: interpret_chunk_def)
  show "interpret_chunk D c vm = Returned INTERPRET_OK (vm\<lparr>chunk := c, ip := 1\<rparr>)"
    if "code c \<noteq> [] \<and> opcode D (code c ! 0) = Some OP_RETURN"
    using that
    by (simp add: interpret_chunk_def, subst run.simps) (simp add: step_fetch Let_def)
qed

theorem interpret_keeps_stack_witness:
  "stackTop (initVM (sampleVM [] [] [5])) = 0 \<and>
   interpret_chunk sampleDecls \<lparr>code = [7], constants = []\<rparr> (sampleVM [] [] [5]) =
     Returned INTERPRET_OK ((sampleVM [7] [] [5])\<lparr>ip := 1\<rparr>)"
  using interpret_keeps_stack [where vm="sampleVM [] [] [5]" and D=sampleDecls
      and c="\<lparr>code = [7], constants = []\<rparr>"]
  by (simp add: sampleDecls_def sampleOpcode_def sampleVM_def)

text \<open>
  Claim C3 as stated fails. A VM whose stack holds the value 5 from an earlier call
  interprets the chunk \<open>OP_NEGATE OP_RETURN\<close>: the run negates that value and returns,
  with one value on the stack. Had the stack been cleared at the start of the call, as
  it is when \<open>resetStack\<close> is applied first, \<open>OP_NEGATE\<close> would have found the stack empty.
\<close>

theorem interpret_keeps_stack_counterexample:
  "interpret_chunk sampleDecls \<lparr>code = [6, 7], constants = []\<rparr> (sampleVM [] [] [5]) =
     Returned INTERPRET_OK
       ((sampleVM [6, 7] [] [5])\<lparr>ip := 2, stack := (stack (sampleVM [] [] [5]))(0 := - 5)\<rparr>) \<and>
   interpret_chunk sampleDecls \<lparr>code = [6, 7], constants = []\<rparr>
       (resetStack (sampleVM [] [] [5])) =
     Exit StackUnderflow ((sampleVM [6, 7] [] [5])\<lparr>ip := 1, stackTop := 0\<rparr>)"
  by (simp add: interpret_chunk_def run.simps step_fetch Let_def sampleDecls_def sampleOpcode_def
        sampleVM_def resetStack_def andThen_def pop_def push_def)

end
